theory Spec2Isabelle
  imports Complex_Main "HOL-Library.Log_Nat" "HOL-Library.Word"
begin

section \<open>JavaScript numbers\<close>

text \<open>
  The file \<^verbatim>\<open>src/telecom/src/queue.ts\<close> holds two variants of the class \<open>CallMediaQueue\<close>;
  the model is of the first, the one with a buffer limit and a checked \<open>setVolume\<close>.

  The class computes with JavaScript numbers: IEEE 754 doubles. A number is NaN, one of the two infinities, or a finite double,
  which is a rational. The model keeps the rational a finite double denotes; the two zeros
  are identified (no operation of the class tells them apart). Every arithmetic operation
  rounds its exact result to the nearest double, ties to even, as the language does. The
  type has every rational, the doubles among them: what is proved of all holds of the
  doubles.
\<close>

datatype number = NaN | PosInfinity | NegInfinity | Fin rat

text \<open>\<open>ilog2 x\<close> is the binary exponent of a positive rational: \<open>2 ^ e \<le> x < 2 ^ (e + 1)\<close>.\<close>

definition ilog2 :: "rat \<Rightarrow> int" where
  "ilog2 x = (if 1 \<le> x then bitlen \<lfloor>x\<rfloor> - 1 else - bitlen (\<lceil>1 / x\<rceil> - 1))"

definition round_half_even :: "rat \<Rightarrow> int" where
  "round_half_even y = (let f = \<lfloor>y\<rfloor>; d = y - of_int f in
     if d < 1 / 2 then f else if 1 / 2 < d then f + 1 else if even f then f else f + 1)"

text \<open>
  Rounding to binary64: 53 significant bits, the exponent not below that of the smallest
  normal number (below it the spacing stays \<open>2 ^ -1074\<close>: subnormals).
\<close>

definition round_double :: "rat \<Rightarrow> rat" where
  "round_double x = (if x = 0 then 0 else
     let e = max (ilog2 \<bar>x\<bar>) (- 1022); u = power_int 2 (e - 52)
     in of_int (round_half_even (x / u)) * u)"

text \<open>A rounded result of magnitude \<open>2 ^ 1024\<close> or more overflows to an infinity.\<close>

definition overflow_threshold :: rat where
  "overflow_threshold = 2 ^ 1024"

definition to_number :: "rat \<Rightarrow> number" where
  "to_number x = (let r = round_double x in
     if overflow_threshold \<le> r then PosInfinity
     else if r \<le> - overflow_threshold then NegInfinity
     else Fin r)"

text \<open>The sign of a number that is not NaN, zero counted as positive.\<close>

fun negative :: "number \<Rightarrow> bool" where
  "negative NegInfinity = True"
| "negative (Fin a) = (a < 0)"
| "negative _ = False"

fun is_zero :: "number \<Rightarrow> bool" where
  "is_zero (Fin a) = (a = 0)"
| "is_zero _ = False"

definition signed_infinity :: "bool \<Rightarrow> number" where
  "signed_infinity neg = (if neg then NegInfinity else PosInfinity)"

text \<open>\<open>a * b\<close>\<close>

fun js_mul :: "number \<Rightarrow> number \<Rightarrow> number" where
  "js_mul NaN _ = NaN"
| "js_mul _ NaN = NaN"
| "js_mul (Fin a) (Fin b) = to_number (a * b)"
| "js_mul a b = (if is_zero a \<or> is_zero b then NaN
                 else signed_infinity (negative a \<noteq> negative b))"

text \<open>\<open>a / b\<close>\<close>

fun js_div :: "number \<Rightarrow> number \<Rightarrow> number" where
  "js_div NaN _ = NaN"
| "js_div _ NaN = NaN"
| "js_div (Fin a) (Fin b) =
     (if b = 0 then (if a = 0 then NaN else signed_infinity (a < 0)) else to_number (a / b))"
| "js_div (Fin a) _ = Fin 0"
| "js_div a (Fin b) = signed_infinity (negative a \<noteq> (b < 0))"
| "js_div _ _ = NaN"

text \<open>\<open>a < b\<close>, \<open>a > b\<close>, \<open>a >= b\<close> and \<open>a === b\<close>: every comparison with NaN is false.\<close>

fun js_lt :: "number \<Rightarrow> number \<Rightarrow> bool" where
  "js_lt NaN _ = False"
| "js_lt _ NaN = False"
| "js_lt (Fin a) (Fin b) = (a < b)"
| "js_lt _ NegInfinity = False"
| "js_lt NegInfinity _ = True"
| "js_lt PosInfinity _ = False"
| "js_lt _ PosInfinity = True"

definition js_gt :: "number \<Rightarrow> number \<Rightarrow> bool" where
  "js_gt a b = js_lt b a"

definition js_ge :: "number \<Rightarrow> number \<Rightarrow> bool" where
  "js_ge a b = (a \<noteq> NaN \<and> b \<noteq> NaN \<and> \<not> js_lt a b)"

definition js_eq :: "number \<Rightarrow> number \<Rightarrow> bool" where
  "js_eq a b = (a \<noteq> NaN \<and> a = b)"

text \<open>\<open>Math.floor\<close>, \<open>Math.max\<close> and \<open>Math.min\<close>; the last two give NaN when an argument is NaN.\<close>

fun Math_floor :: "number \<Rightarrow> number" where
  "Math_floor (Fin a) = Fin (of_int \<lfloor>a\<rfloor>)"
| "Math_floor a = a"

definition Math_max :: "number \<Rightarrow> number \<Rightarrow> number" where
  "Math_max a b = (if a = NaN \<or> b = NaN then NaN else if js_lt a b then b else a)"

definition Math_min :: "number \<Rightarrow> number \<Rightarrow> number" where
  "Math_min a b = (if a = NaN \<or> b = NaN then NaN else if js_lt b a then b else a)"

section \<open>Buffers\<close>

text \<open>
  A \<open>Buffer\<close> is a sequence of bytes. \<open>readInt16LE\<close> and \<open>writeInt16LE\<close> are the
  accessors of the runtime: both raise \<open>ERR_OUT_OF_RANGE\<close> when the two bytes are not inside the
  buffer, and the write also when the value is outside the signed 16-bit range. The write
  stores \<open>value\<close> and \<open>value >>> 8\<close> into byte cells, which keep the low eight bits of the
  integer part (NaN is stored as 0). \<open>Buffer.alloc\<close> gives a zero-filled buffer.
\<close>

type_synonym byte = "8 word"

datatype error =
    Error string
  | ERR_OUT_OF_RANGE
  | TypeError
  | SyntaxError

definition alloc :: "nat \<Rightarrow> byte list" where
  "alloc n = replicate n 0"

definition readInt16LE :: "byte list \<Rightarrow> nat \<Rightarrow> error + int" where
  "readInt16LE buf offset =
     (if offset + 1 < length buf then
        (let u = uint (buf ! offset) + 256 * uint (buf ! (offset + 1))
         in Inr (if 32768 \<le> u then u - 65536 else u))
      else Inl ERR_OUT_OF_RANGE)"

definition to_integer :: "rat \<Rightarrow> int" where
  "to_integer a = (if 0 \<le> a then \<lfloor>a\<rfloor> else \<lceil>a\<rceil>)"

fun writeInt16LE :: "byte list \<Rightarrow> number \<Rightarrow> nat \<Rightarrow> error + byte list" where
  "writeInt16LE buf NaN offset =
     (if offset + 1 < length buf then Inr (buf[offset := 0, offset + 1 := 0])
      else Inl ERR_OUT_OF_RANGE)"
| "writeInt16LE buf (Fin v) offset =
     (if 32767 < v \<or> v < - 32768 then Inl ERR_OUT_OF_RANGE
      else if offset + 1 < length buf then
        Inr (buf[offset := word_of_int (to_integer v),
                 offset + 1 := word_of_int (to_integer v div 256)])
      else Inl ERR_OUT_OF_RANGE)"
| "writeInt16LE buf _ offset = Inl ERR_OUT_OF_RANGE"

section \<open>The base64 text of a payload\<close>

text \<open>
  Payloads travel as base64 text. \<open>base64_encode\<close> is \<open>buffer.toString('base64')\<close>: the standard
  alphabet with \<open>=\<close> padding. \<open>base64_decode\<close> is \<open>Buffer.from(text, 'base64')\<close>, which is
  lenient: it accepts the URL-safe characters too, skips every character outside the
  alphabet, stops at the first \<open>=\<close>, and drops a final group of a single character.
\<close>

definition base64_alphabet :: string where
  "base64_alphabet = ''ABCDEFGHIJKLMNOPQRSTUVWXYZabcdefghijklmnopqrstuvwxyz0123456789+/''"

definition base64_char :: "nat \<Rightarrow> char" where
  "base64_char n = base64_alphabet ! (n mod 64)"

fun index_of :: "char \<Rightarrow> string \<Rightarrow> nat \<Rightarrow> nat option" where
  "index_of c [] n = None"
| "index_of c (x # xs) n = (if c = x then Some n else index_of c xs (Suc n))"

definition unbase64 :: "char \<Rightarrow> nat option" where
  "unbase64 c = (if c = CHR ''-'' then Some 62 else if c = CHR ''_'' then Some 63
                 else index_of c base64_alphabet 0)"

fun base64_encode :: "byte list \<Rightarrow> string" where
  "base64_encode [] = []"
| "base64_encode [a] =
     [base64_char (unat a div 4), base64_char (unat a mod 4 * 16), CHR ''='', CHR ''='']"
| "base64_encode [a, b] =
     [base64_char (unat a div 4), base64_char (unat a mod 4 * 16 + unat b div 16),
      base64_char (unat b mod 16 * 4), CHR ''='']"
| "base64_encode (a # b # c # rest) =
     [base64_char (unat a div 4), base64_char (unat a mod 4 * 16 + unat b div 16),
      base64_char (unat b mod 16 * 4 + unat c div 64), base64_char (unat c mod 64)]
     @ base64_encode rest"

fun sextets_of :: "string \<Rightarrow> nat list" where
  "sextets_of [] = []"
| "sextets_of (c # cs) =
     (if c = CHR ''='' then []
      else case unbase64 c of None \<Rightarrow> sextets_of cs | Some n \<Rightarrow> n # sextets_of cs)"

fun bytes_of_sextets :: "nat list \<Rightarrow> byte list" where
  "bytes_of_sextets (p # q # r # s # rest) =
     [of_nat (p * 4 + q div 16), of_nat (q mod 16 * 16 + r div 4), of_nat (r mod 4 * 64 + s)]
     @ bytes_of_sextets rest"
| "bytes_of_sextets [p, q, r] = [of_nat (p * 4 + q div 16), of_nat (q mod 16 * 16 + r div 4)]"
| "bytes_of_sextets [p, q] = [of_nat (p * 4 + q div 16)]"
| "bytes_of_sextets _ = []"

definition base64_decode :: "string \<Rightarrow> byte list" where
  "base64_decode text = bytes_of_sextets (sextets_of text)"

section \<open>Messages and the state of a queue\<close>

text \<open>
  \<open>SocketMessage\<close> is the interface of the source: an event tag, an optional \<open>media\<close> object
  (its only field is the payload text) and an optional \<open>mark\<close> object (its only field is the
  name).
\<close>

datatype event_kind = MediaEvent | MarkEvent | ClearEvent

record SocketMessage =
  event :: event_kind
  media_field :: "string option"
  mark_field :: "string option"

text \<open>
  What \<open>sendToTwilio\<close> hands to \<open>socket.send\<close>: the JSON text of an object with the fields
  \<open>event\<close>, \<open>streamSid\<close>, \<open>media\<close> and \<open>mark\<close>, an absent field being left out of the text.
\<close>

record WireMessage =
  wire_event :: event_kind
  wire_streamSid :: string
  wire_media :: "string option"
  wire_mark :: "string option"

datatype log_line = LogWarn string | LogError string

text \<open>The values a caller can pass and \<open>JSON.parse\<close> can return.\<close>

datatype jsval =
    JUndefined
  | JNull
  | JBool bool
  | JNum number
  | JStr string
  | JArr "jsval list"
  | JObj "(string \<times> jsval) list"

text \<open>
  The fields of the class, and the effects of its methods on the outside: \<open>sent\<close> lists the
  messages given to \<open>socket.send\<close>, oldest first; \<open>timers\<close> the delays of the pending
  \<open>setTimeout\<close> callbacks (each one calls \<open>sendNext\<close>); \<open>console\<close> the lines written to the
  console; \<open>emitted\<close> the arguments of the calls \<open>this.emit('mark', ...)\<close>, each of which
  invokes every listener registered for \<open>'mark'\<close> once. The socket is the transport, and
  its condition is not in the hands of the class: \<open>socket\<close> tells what a call of
  \<open>socket.send\<close> does in this state, return or raise (as the socket of the library does
  while it is connecting). \<open>sent\<close> has every message handed to \<open>socket.send\<close>, whether the
  call returns or raises.
\<close>

datatype send_outcome = Returns | Raises

record CallMediaQueue =
  queue :: "SocketMessage list"
  isSending :: bool
  streamSid :: string
  socket :: send_outcome
  packetDuration :: number
  volumeLevel :: number
  bufferLimit :: number
  sent :: "WireMessage list"
  timers :: "number list"
  console :: "log_line list"
  emitted :: "jsval list"

text \<open>The audio format is set by the constructor and assigned nowhere else.\<close>

definition channels :: number where
  "channels = Fin 1"

definition sampleRate :: number where
  "sampleRate = Fin 16000"

definition bytesPerSample :: number where
  "bytesPerSample = Fin 2"

text \<open>
  The object made for a stream id and a socket whose \<open>send\<close> returns; the same object on a
  socket whose \<open>send\<close> raises is \<open>(constructor sid)\<lparr>socket := Raises\<rparr>\<close>.
\<close>

definition constructor :: "string \<Rightarrow> CallMediaQueue" where
  "constructor sid =
     \<lparr>queue = [], isSending = False, streamSid = sid, socket = Returns,
      packetDuration = Fin 0,
      volumeLevel = Fin 1, bufferLimit = Fin 1000, sent = [], timers = [], console = [],
      emitted = []\<rparr>"

section \<open>The methods\<close>

definition processNext :: "CallMediaQueue \<Rightarrow> CallMediaQueue" where
  "processNext s =
     (if \<not> isSending s \<and> 0 < length (queue s)
      then s\<lparr>isSending := True, timers := timers s @ [packetDuration s]\<rparr>
      else s)"

text \<open>
  \<open>sendToTwilio\<close> hands the message to \<open>socket.send\<close> and does not catch what that call
  raises. A method that can raise returns the error, if any, beside the state the object
  is left in.
\<close>

definition sendToTwilio ::
  "SocketMessage \<Rightarrow> CallMediaQueue \<Rightarrow> error option \<times> CallMediaQueue" where
  "sendToTwilio socketMessage s =
     (case socket s of Returns \<Rightarrow> None | Raises \<Rightarrow> Some (Error ''WebSocket is not open''),
      s\<lparr>sent := sent s @
        [\<lparr>wire_event = event socketMessage, wire_streamSid = streamSid s,
          wire_media = media_field socketMessage, wire_mark = mark_field socketMessage\<rparr>]\<rparr>)"

text \<open>The duration in milliseconds that \<open>sendNext\<close> derives from a payload text.\<close>

definition duration_of :: "string \<Rightarrow> number" where
  "duration_of payload =
     (let payloadBuffer = base64_decode payload;
          numberOfSamples =
            js_div (Fin (of_nat (length payloadBuffer))) (js_mul channels bytesPerSample)
      in js_mul (js_div numberOfSamples sampleRate) (Fin 1000))"

text \<open>
  \<open>sendNext\<close>. The test \<open>socketMessage?.media?.payload\<close> is one of truthiness: it fails
  for a message without \<open>media\<close> and for a payload that is the empty text. Inside the
  \<open>try\<close> block only \<open>socket.send\<close> can raise; the handler then writes to the console,
  and \<open>isSending\<close> stays set with no timer scheduled.
\<close>

definition sendNext :: "CallMediaQueue \<Rightarrow> CallMediaQueue" where
  "sendNext s =
     (case queue s of
        [] \<Rightarrow> s\<lparr>isSending := False, packetDuration := Fin 0\<rparr>
      | socketMessage # rest \<Rightarrow>
          (let s1 = s\<lparr>queue := rest\<rparr>;
               s2 = (case media_field socketMessage of
                       None \<Rightarrow> s1
                     | Some payload \<Rightarrow>
                         if payload \<noteq> [] then s1\<lparr>packetDuration := duration_of payload\<rparr>
                         else s1)
           in case sendToTwilio socketMessage s2 of
                (Some e, s3) \<Rightarrow> s3\<lparr>console := console s3 @ [LogError ''Error sending audio packet'']\<rparr>
              | (None, s3) \<Rightarrow> processNext (s3\<lparr>isSending := False\<rparr>)))"

text \<open>A pending timer fires: it leaves the list and its callback runs.\<close>

definition timerFires :: "CallMediaQueue \<Rightarrow> CallMediaQueue" where
  "timerFires s = (case timers s of [] \<Rightarrow> s | d # ds \<Rightarrow> sendNext (s\<lparr>timers := ds\<rparr>))"

definition clearQueue :: "CallMediaQueue \<Rightarrow> CallMediaQueue" where
  "clearQueue s = s\<lparr>queue := []\<rparr>"

text \<open>
  The loop of \<open>adjustVolume\<close>, from index \<open>i\<close> on: every second index, and only where both
  bytes of a sample are inside the buffer.
\<close>

function adjustLoop :: "number \<Rightarrow> byte list \<Rightarrow> nat \<Rightarrow> byte list \<Rightarrow> error + byte list" where
  "adjustLoop level audioData i newAudioData =
     (if i < length audioData then
        (if i + 1 < length audioData then
           (case readInt16LE audioData i of
              Inl e \<Rightarrow> Inl e
            | Inr sample \<Rightarrow>
                (let newSample = Math_floor (js_mul (Fin (of_int sample)) level);
                     clipped = Math_min (Math_max newSample (Fin (- 32768))) (Fin 32767)
                 in case writeInt16LE newAudioData clipped i of
                      Inl e \<Rightarrow> Inl e
                    | Inr written \<Rightarrow> adjustLoop level audioData (i + 2) written))
         else adjustLoop level audioData (i + 2) newAudioData)
      else Inr newAudioData)"
  by pat_completeness auto
termination
  by (relation "measure (\<lambda>(level, audioData, i, newAudioData). length audioData - i)") auto

text \<open>
  \<open>adjustVolume\<close> reads the volume level of the object. An error raised inside its
  \<open>try\<close> block is raised again by the handler.
\<close>

definition adjustVolume :: "CallMediaQueue \<Rightarrow> byte list \<Rightarrow> error + byte list" where
  "adjustVolume s audioData =
     (if js_eq (volumeLevel s) (Fin 1) then Inr audioData
      else adjustLoop (volumeLevel s) audioData 0 (alloc (length audioData)))"

text \<open>
  \<open>enqueue\<close>. The line that the handler of \<open>adjustVolume\<close> writes to the console is
  recorded here.
\<close>

definition enqueue :: "SocketMessage \<Rightarrow> CallMediaQueue \<Rightarrow> error option \<times> CallMediaQueue" where
  "enqueue mediaData s =
     (if js_ge (Fin (of_nat (length (queue s)))) (bufferLimit s)
      then (None, s\<lparr>console := console s @ [LogWarn ''Buffer limit reached. Incoming packet dropped.'']\<rparr>)
      else
        (case (case media_field mediaData of
                 Some payload \<Rightarrow>
                   if js_eq (volumeLevel s) (Fin 1)
                   then (case adjustVolume s (base64_decode payload) of
                           Inl e \<Rightarrow> Inl e
                         | Inr adjustedBuffer \<Rightarrow>
                             Inr (mediaData\<lparr>media_field := Some (base64_encode adjustedBuffer)\<rparr>))
                   else Inr mediaData
               | None \<Rightarrow> Inr mediaData) of
           Inl e \<Rightarrow> (Some e, s\<lparr>console := console s @ [LogError ''Error during audio processing'']\<rparr>)
         | Inr prepared \<Rightarrow> (None, processNext (s\<lparr>queue := queue s @ [prepared]\<rparr>))))"

definition media :: "string \<Rightarrow> CallMediaQueue \<Rightarrow> error option \<times> CallMediaQueue" where
  "media payload s =
     enqueue \<lparr>event = MediaEvent, media_field = Some payload, mark_field = None\<rparr> s"

definition mark :: "string \<Rightarrow> CallMediaQueue \<Rightarrow> error option \<times> CallMediaQueue" where
  "mark name s =
     enqueue \<lparr>event = MarkEvent, media_field = None, mark_field = Some name\<rparr> s"

text \<open>\<open>clear\<close> has no handler: when the send raises, \<open>clearQueue\<close> is not reached.\<close>

definition clear :: "CallMediaQueue \<Rightarrow> error option \<times> CallMediaQueue" where
  "clear s =
     (case sendToTwilio \<lparr>event = ClearEvent, media_field = None, mark_field = None\<rparr> s of
        (Some e, s1) \<Rightarrow> (Some e, s1)
      | (None, s1) \<Rightarrow> (None, clearQueue s1))"

definition setVolume :: "jsval \<Rightarrow> CallMediaQueue \<Rightarrow> error option \<times> CallMediaQueue" where
  "setVolume volume s =
     (case volume of
        JNum v \<Rightarrow>
          if js_lt v (Fin 0) \<or> js_gt v (Fin 1)
          then (Some (Error ''Invalid volume level. It should be a number between 0 and 1.''), s)
          else (None, s\<lparr>volumeLevel := Math_max (Fin 0) (Math_min (Fin 1) v)\<rparr>)
      | _ \<Rightarrow> (Some (Error ''Invalid volume level. It should be a number between 0 and 1.''), s))"

definition setBufferLimit :: "jsval \<Rightarrow> CallMediaQueue \<Rightarrow> error option \<times> CallMediaQueue" where
  "setBufferLimit limit s =
     (case limit of
        JNum v \<Rightarrow>
          if js_lt v (Fin 0)
          then (Some (Error ''Invalid buffer limit. It should be a positive number.''), s)
          else (None, s\<lparr>bufferLimit := v\<rparr>)
      | _ \<Rightarrow> (Some (Error ''Invalid buffer limit. It should be a positive number.''), s))"

section \<open>Inbound messages\<close>

text \<open>
  Reading a property: of \<open>undefined\<close> and \<open>null\<close> it raises a \<open>TypeError\<close>; of an object it
  gives the value stored under the key, \<open>undefined\<close> when there is none; the other values
  have no property called \<open>event\<close>, \<open>mark\<close> or \<open>name\<close>, the only keys read here.
\<close>

fun get_prop :: "jsval \<Rightarrow> string \<Rightarrow> error + jsval" where
  "get_prop JUndefined key = Inl TypeError"
| "get_prop JNull key = Inl TypeError"
| "get_prop (JObj props) key = (case map_of props key of None \<Rightarrow> Inr JUndefined | Some v \<Rightarrow> Inr v)"
| "get_prop _ key = Inr JUndefined"

text \<open>
  The handler of the socket's \<open>'message'\<close> event, on the outcome of \<open>JSON.parse\<close>: the
  parsed value, or the \<open>SyntaxError\<close> it raised. Any error is caught and written to the
  console.
\<close>

definition onMessage :: "error + jsval \<Rightarrow> CallMediaQueue \<Rightarrow> CallMediaQueue" where
  "onMessage parsed s =
     (case (case parsed of
              Inl e \<Rightarrow> Inl e
            | Inr data \<Rightarrow>
                (case get_prop data ''event'' of
                   Inl e \<Rightarrow> Inl e
                 | Inr ev \<Rightarrow>
                     if ev = JStr ''mark''
                     then (case get_prop data ''mark'' of
                             Inl e \<Rightarrow> Inl e
                           | Inr m \<Rightarrow>
                               (case get_prop m ''name'' of
                                  Inl e \<Rightarrow> Inl e
                                | Inr name \<Rightarrow> Inr (s\<lparr>emitted := emitted s @ [name]\<rparr>)))
                     else Inr s)) of
        Inl e \<Rightarrow> s\<lparr>console := console s @ [LogError ''Error parsing message data'']\<rparr>
      | Inr s' \<Rightarrow> s')"

section \<open>Notions used to state the properties\<close>

text \<open>A sequence of calls of \<open>enqueue\<close>, in order; a call that raises leaves its state behind.\<close>

fun offers :: "SocketMessage list \<Rightarrow> CallMediaQueue \<Rightarrow> CallMediaQueue" where
  "offers [] s = s"
| "offers (m # ms) s = offers ms (snd (enqueue m s))"

text \<open>The duration as a function of the number of payload bytes.\<close>

definition duration_ms :: "nat \<Rightarrow> number" where
  "duration_ms n =
     js_mul (js_div (js_div (Fin (of_nat n)) (js_mul (Fin 1) (Fin 2))) (Fin 16000)) (Fin 1000)"

text \<open>
  The gain as the specification words it: a sample \<open>s\<close> becomes \<open>floor (s * gain)\<close>, the
  product being the one of the language, clamped to the signed 16-bit range; a buffer is
  treated two bytes at a time, and a last odd byte is not read (the output has a zero there).
\<close>

definition clamp16 :: "int \<Rightarrow> int" where
  "clamp16 v = min (max v (- 32768)) 32767"

definition scaled_sample :: "rat \<Rightarrow> int \<Rightarrow> int" where
  "scaled_sample gain sample = clamp16 \<lfloor>round_double (of_int sample * gain)\<rfloor>"

definition sample16 :: "byte \<Rightarrow> byte \<Rightarrow> int" where
  "sample16 lo hi = (let u = uint lo + 256 * uint hi in if 32768 \<le> u then u - 65536 else u)"

fun gain_bytes :: "rat \<Rightarrow> byte list \<Rightarrow> byte list" where
  "gain_bytes gain (lo # hi # rest) =
     [word_of_int (scaled_sample gain (sample16 lo hi)),
      word_of_int (scaled_sample gain (sample16 lo hi) div 256)] @ gain_bytes gain rest"
| "gain_bytes gain [last_byte] = [0]"
| "gain_bytes gain [] = []"

text \<open>The message that \<open>enqueue\<close> stores for the message it is given, at a volume level.\<close>

definition admitted :: "number \<Rightarrow> SocketMessage \<Rightarrow> SocketMessage" where
  "admitted level mediaData =
     (case media_field mediaData of
        None \<Rightarrow> mediaData
      | Some payload \<Rightarrow>
          if js_eq level (Fin 1)
          then mediaData\<lparr>media_field := Some (base64_encode (base64_decode payload))\<rparr>
          else mediaData)"

section \<open>The arithmetic of the model on known values\<close>

text \<open>
  The double nearest to one tenth; \<open>0.7 * 10\<close>, which is 7 in the language although the
  double written \<open>0.7\<close> is below seven tenths; and \<open>0.57 * 100\<close>, which is not 57.
\<close>

lemma round_double_examples:
  "round_double (1 / 10) = 3602879701896397 / 36028797018963968"
  "round_double (7 / 10) = 3152519739159347 / 4503599627370496"
  "round_double (3152519739159347 / 4503599627370496 * 10) = 7"
  "round_double (round_double (57 / 100) * 100) = 8022036836253695 / 140737488355328"
  by code_simp+

section \<open>The gain: \<open>adjustVolume\<close>\<close>

declare adjustLoop.simps [simp del]

lemma readInt16LE_in_range:
  "offset + 1 < length buf \<Longrightarrow>
   readInt16LE buf offset = Inr (sample16 (buf ! offset) (buf ! (offset + 1)))"
  by (simp add: readInt16LE_def sample16_def Let_def)

lemma of_int_less_lower: "((of_int f :: rat) < - 32768) = (f < - 32768)"
  using of_int_less_iff [of f "- 32768", where ?'a = rat] by simp

lemma of_int_greater_upper: "((32767 :: rat) < of_int f) = (32767 < f)"
  using of_int_less_iff [of 32767 f, where ?'a = rat] by simp

lemma clip_of_int:
  "Math_min (Math_max (Fin (of_int f)) (Fin (- 32768))) (Fin 32767) = Fin (of_int (clamp16 f))"
  by (simp add: Math_max_def Math_min_def clamp16_def of_int_less_lower of_int_greater_upper
      min_def max_def)

lemma clip_Fin:
  "Math_min (Math_max (Math_floor (Fin r)) (Fin (- 32768))) (Fin 32767)
   = Fin (of_int (clamp16 \<lfloor>r\<rfloor>))"
  by (simp only: Math_floor.simps clip_of_int)

lemma clip_PosInfinity:
  "Math_min (Math_max (Math_floor PosInfinity) (Fin (- 32768))) (Fin 32767) = Fin 32767"
  by (simp add: Math_max_def Math_min_def)

lemma clip_NegInfinity:
  "Math_min (Math_max (Math_floor NegInfinity) (Fin (- 32768))) (Fin 32767) = Fin (- 32768)"
  by (simp add: Math_max_def Math_min_def)

lemma clip_NaN:
  "Math_min (Math_max (Math_floor NaN) (Fin (- 32768))) (Fin 32767) = NaN"
  by (simp add: Math_max_def Math_min_def)

lemma large_threshold: "32768 \<le> overflow_threshold"
proof -
  have "(32768 :: rat) = 2 ^ 15" by simp
  also have "\<dots> \<le> 2 ^ 1024" by (rule power_increasing) simp_all
  finally show ?thesis by (simp only: overflow_threshold_def)
qed

lemma to_number_small:
  assumes "round_double x = r" and "- 32768 < r" and "r < 32768"
  shows "to_number x = Fin r"
proof -
  have "\<not> overflow_threshold \<le> r" using assms(3) large_threshold by linarith
  moreover have "\<not> r \<le> - overflow_threshold" using assms(2) large_threshold by linarith
  ultimately show ?thesis using assms(1) by (simp add: to_number_def Let_def)
qed

lemma clip_floor_to_number:
  "Math_min (Math_max (Math_floor (to_number x)) (Fin (- 32768))) (Fin 32767)
   = Fin (of_int (clamp16 \<lfloor>round_double x\<rfloor>))"
proof -
  consider (pos) "overflow_threshold \<le> round_double x"
    | (neg) "\<not> overflow_threshold \<le> round_double x" "round_double x \<le> - overflow_threshold"
    | (fin) "\<not> overflow_threshold \<le> round_double x" "\<not> round_double x \<le> - overflow_threshold"
    by blast
  then show ?thesis
  proof cases
    case pos
    then have n: "to_number x = PosInfinity"
      unfolding to_number_def Let_def by (simp only: if_True)
    from pos have "of_int 32768 \<le> round_double x" using large_threshold by simp
    then have "32768 \<le> \<lfloor>round_double x\<rfloor>" by (simp only: le_floor_iff)
    then have "clamp16 \<lfloor>round_double x\<rfloor> = 32767" by (simp add: clamp16_def)
    with n show ?thesis by (simp only: clip_PosInfinity) simp
  next
    case neg
    then have n: "to_number x = NegInfinity"
      unfolding to_number_def Let_def by (simp only: if_True if_False)
    from neg have "round_double x \<le> of_int (- 32768)" using large_threshold by simp
    then have "\<lfloor>round_double x\<rfloor> \<le> \<lfloor>of_int (- 32768) :: rat\<rfloor>" by (rule floor_mono)
    then have "\<lfloor>round_double x\<rfloor> \<le> - 32768" by (simp only: floor_of_int)
    then have "clamp16 \<lfloor>round_double x\<rfloor> = - 32768" by (simp add: clamp16_def)
    with n show ?thesis by (simp only: clip_NegInfinity) simp
  next
    case fin
    then have n: "to_number x = Fin (round_double x)"
      unfolding to_number_def Let_def by (simp only: if_False)
    show ?thesis by (simp only: n clip_Fin)
  qed
qed

lemma clamp16_range: "- 32768 \<le> clamp16 v \<and> clamp16 v \<le> 32767"
  by (simp add: clamp16_def)

lemma to_integer_of_int: "to_integer (of_int v) = v"
  by (simp add: to_integer_def)

lemma sample16_roundtrip:
  assumes "- 32768 \<le> v" "v \<le> 32767"
  shows "sample16 (word_of_int v) (word_of_int (v div 256)) = v"
proof -
  define q where "q = v div 256"
  define r where "r = v mod 256"
  have v: "v = 256 * q + r" by (simp add: q_def r_def)
  have r: "0 \<le> r" "r < 256" by (simp_all add: r_def)
  have lo: "uint (word_of_int v :: byte) = r"
    by (simp add: uint_word_of_int r_def)
  have hi: "uint (word_of_int q :: byte) = q mod 256"
    by (simp add: uint_word_of_int)
  show ?thesis
  proof (cases "0 \<le> v")
    case True
    then have "0 \<le> q" "q < 256" using v r assms by linarith+
    then have "q mod 256 = q" by simp
    then show ?thesis
      unfolding sample16_def Let_def q_def [symmetric] lo hi using v r assms True by simp
  next
    case False
    then have qb: "- 256 \<le> q" "q < 0" using v r assms by linarith+
    have "(q + 256) mod 256 = q + 256" using qb by (intro mod_pos_pos_trivial) linarith+
    moreover have "(q + 256) mod 256 = q mod 256" by (rule mod_add_self2)
    ultimately have "q mod 256 = q + 256" by (simp only:)
    then show ?thesis
      unfolding sample16_def Let_def q_def [symmetric] lo hi using v r assms False qb by simp
  qed
qed


lemma writeInt16LE_clamped:
  assumes "- 32768 \<le> c" "c \<le> 32767" "offset + 1 < length buf"
  shows "writeInt16LE buf (Fin (of_int c)) offset
         = Inr (buf[offset := word_of_int c, offset + 1 := word_of_int (c div 256)])"
proof -
  have "\<not> (32767 < (of_int c :: rat) \<or> (of_int c :: rat) < - 32768)"
    using assms by (simp add: of_int_less_lower of_int_greater_upper)
  then show ?thesis using assms by (simp add: to_integer_of_int)
qed

lemma clip_cases:
  "Math_min (Math_max (Math_floor n) (Fin (- 32768))) (Fin 32767) = NaN \<or>
   (\<exists>c. - 32768 \<le> c \<and> c \<le> 32767 \<and>
        Math_min (Math_max (Math_floor n) (Fin (- 32768))) (Fin 32767) = Fin (of_int c))"
proof (cases n)
  case NaN
  then show ?thesis by (simp only: clip_NaN) simp
next
  case PosInfinity
  have "Math_min (Math_max (Math_floor n) (Fin (- 32768))) (Fin 32767) = Fin (of_int 32767)"
    unfolding PosInfinity by (simp add: Math_max_def Math_min_def)
  moreover have "- 32768 \<le> (32767 :: int)" "(32767 :: int) \<le> 32767" by simp_all
  ultimately show ?thesis by blast
next
  case NegInfinity
  have "Math_min (Math_max (Math_floor n) (Fin (- 32768))) (Fin 32767) = Fin (of_int (- 32768))"
    unfolding NegInfinity by (simp add: Math_max_def Math_min_def)
  moreover have "- 32768 \<le> (- 32768 :: int)" "(- 32768 :: int) \<le> 32767" by simp_all
  ultimately show ?thesis by blast
next
  case (Fin r)
  then show ?thesis using clamp16_range [of "\<lfloor>r\<rfloor>"] by (simp only: clip_Fin) blast
qed

lemma writeInt16LE_clip:
  assumes "offset + 1 < length buf"
  shows "\<exists>written. writeInt16LE buf
           (Math_min (Math_max (Math_floor n) (Fin (- 32768))) (Fin 32767)) offset = Inr written
         \<and> length written = length buf"
  using clip_cases [of n]
proof
  assume "Math_min (Math_max (Math_floor n) (Fin (- 32768))) (Fin 32767) = NaN"
  then show ?thesis using assms by simp
next
  assume "\<exists>c. - 32768 \<le> c \<and> c \<le> 32767 \<and>
    Math_min (Math_max (Math_floor n) (Fin (- 32768))) (Fin 32767) = Fin (of_int c)"
  then obtain c where c: "- 32768 \<le> c" "c \<le> 32767"
    and eq: "Math_min (Math_max (Math_floor n) (Fin (- 32768))) (Fin 32767) = Fin (of_int c)"
    by blast
  show ?thesis
    unfolding eq using writeInt16LE_clamped [OF c assms] by simp
qed

lemma adjustLoop_total:
  "length newAudioData = length audioData \<Longrightarrow>
   \<exists>out. adjustLoop level audioData i newAudioData = Inr out \<and> length out = length audioData"
proof (induction level audioData i newAudioData rule: adjustLoop.induct)
  case (1 level audioData i newAudioData)
  show ?case
  proof (cases "i < length audioData")
    case False
    then show ?thesis using "1.prems" by (simp add: adjustLoop.simps [of level audioData i])
  next
    case True
    note inside = this
    show ?thesis
    proof (cases "i + 1 < length audioData")
      case False
      with inside "1.IH"(2) "1.prems" show ?thesis
        by (simp add: adjustLoop.simps [of level audioData i])
    next
      case True
      let ?sample = "sample16 (audioData ! i) (audioData ! (i + 1))"
      let ?clipped = "Math_min (Math_max (Math_floor (js_mul (Fin (of_int ?sample)) level))
                        (Fin (- 32768))) (Fin 32767)"
      have rd: "readInt16LE audioData i = Inr ?sample"
        using True by (rule readInt16LE_in_range)
      from True "1.prems" have "i + 1 < length newAudioData" by simp
      from writeInt16LE_clip [OF this]
      obtain written where w: "writeInt16LE newAudioData ?clipped i = Inr written"
        and lw: "length written = length newAudioData" by blast
      from lw "1.prems" have "length written = length audioData" by simp
      from "1.IH"(1) [OF inside True rd refl refl w this]
      show ?thesis using inside True rd w
        by (simp add: adjustLoop.simps [of level audioData i] Let_def)
    qed
  qed
qed

lemma length_gain_bytes: "length (gain_bytes g a) = length a"
  by (induction g a rule: gain_bytes.induct) simp_all

lemma adjustLoop_gain:
  "length pre = i \<Longrightarrow> i \<le> length a \<Longrightarrow>
   adjustLoop (Fin g) a i (pre @ replicate (length a - i) 0) = Inr (pre @ gain_bytes g (drop i a))"
proof (induction "length a - i" arbitrary: i pre rule: less_induct)
  case less
  show ?case
  proof (cases "i + 1 < length a")
    case True
    let ?sample = "sample16 (a ! i) (a ! (i + 1))"
    let ?v = "scaled_sample g ?sample"
    let ?rest = "replicate (length a - (i + 2)) (0 :: byte)"
    have rd: "readInt16LE a i = Inr ?sample"
      using True by (rule readInt16LE_in_range)
    have clip: "Math_min (Math_max (Math_floor (js_mul (Fin (of_int ?sample)) (Fin g)))
                  (Fin (- 32768))) (Fin 32767) = Fin (of_int ?v)"
      by (simp only: js_mul.simps clip_floor_to_number scaled_sample_def)
    have rep: "replicate (length a - i) (0 :: byte) = 0 # 0 # ?rest"
    proof -
      from True have "length a - i = Suc (Suc (length a - (i + 2)))" by simp
      then show ?thesis by (simp only: replicate_Suc)
    qed
    have range: "- 32768 \<le> ?v" "?v \<le> 32767"
      using clamp16_range by (simp_all add: scaled_sample_def)
    have inb: "i + 1 < length (pre @ 0 # 0 # ?rest)" using less.prems by simp
    have upd: "(pre @ 0 # 0 # ?rest)[i := word_of_int ?v, i + 1 := word_of_int (?v div 256)]
               = (pre @ [word_of_int ?v, word_of_int (?v div 256)]) @ ?rest"
      using less.prems by (simp add: list_update_append)
    have wr: "writeInt16LE (pre @ replicate (length a - i) 0)
                (Fin (of_int ?v)) i
              = Inr ((pre @ [word_of_int ?v, word_of_int (?v div 256)]) @ ?rest)"
      unfolding rep using writeInt16LE_clamped [OF range inb] upd by simp
    have dr: "drop i a = a ! i # a ! (i + 1) # drop (i + 2) a"
      using True by (simp add: Cons_nth_drop_Suc)
    have ih: "adjustLoop (Fin g) a (i + 2)
                ((pre @ [word_of_int ?v, word_of_int (?v div 256)]) @ ?rest)
              = Inr ((pre @ [word_of_int ?v, word_of_int (?v div 256)])
                     @ gain_bytes g (drop (i + 2) a))"
      using True less.prems by (intro less.hyps) simp_all
    have inside: "i < length a" using True by simp
    have "adjustLoop (Fin g) a i (pre @ replicate (length a - i) 0)
          = Inr ((pre @ [word_of_int ?v, word_of_int (?v div 256)])
                 @ gain_bytes g (drop (i + 2) a))"
      by (subst adjustLoop.simps)
        (simp only: inside True if_True rd sum.case Let_def clip wr ih)
    also have "(pre @ [word_of_int ?v, word_of_int (?v div 256)]) @ gain_bytes g (drop (i + 2) a)
               = pre @ gain_bytes g (drop i a)"
      by (simp only: dr gain_bytes.simps append_assoc)
    finally show ?thesis .
  next
    case False
    note no_pair = this
    show ?thesis
    proof (cases "i < length a")
      case True
      with no_pair have len: "length a = i + 1" by simp
      then have dr: "drop i a = [a ! i]"
        by (metis Cons_nth_drop_Suc True Suc_eq_plus1 drop_all order_refl)
      from len have rep: "replicate (length a - i) (0 :: byte) = [0]" by simp
      show ?thesis
        using True no_pair len
        by (simp add: adjustLoop.simps [of "Fin g" a i]
            adjustLoop.simps [of "Fin g" a "Suc (Suc i)"] dr rep)
    next
      case False
      with less.prems have "i = length a" by simp
      then show ?thesis by (simp add: adjustLoop.simps [of "Fin g" a "length a"])
    qed
  qed
qed

lemma readInt16LE_Cons2: "readInt16LE (x # y # xs) (Suc (Suc n)) = readInt16LE xs n"
  by (simp add: readInt16LE_def)

lemma readInt16LE_first: "readInt16LE (lo # hi # xs) 0 = Inr (sample16 lo hi)"
  by (simp add: readInt16LE_def sample16_def Let_def)

lemma scaled_sample_range: "- 32768 \<le> scaled_sample g v \<and> scaled_sample g v \<le> 32767"
  by (simp add: scaled_sample_def clamp16_range)

lemma gain_bytes_sample:
  "readInt16LE a (2 * k) = Inr sample \<Longrightarrow>
   readInt16LE (gain_bytes g a) (2 * k) = Inr (scaled_sample g sample)"
proof (induction g a arbitrary: k rule: gain_bytes.induct)
  case (1 gain lo hi rest)
  show ?case
  proof (cases k)
    case 0
    with "1.prems" have "sample = sample16 lo hi" by (simp add: readInt16LE_first)
    then show ?thesis
      using 0 scaled_sample_range [of gain "sample16 lo hi"]
      by (simp add: readInt16LE_first sample16_roundtrip)
  next
    case (Suc j)
    with "1.prems" have "readInt16LE rest (2 * j) = Inr sample"
      by (simp add: readInt16LE_Cons2)
    then have "readInt16LE (gain_bytes gain rest) (2 * j) = Inr (scaled_sample gain sample)"
      by (rule "1.IH")
    then show ?thesis using Suc by (simp add: readInt16LE_Cons2)
  qed
next
  case (2 gain last_byte)
  then show ?case by (simp add: readInt16LE_def)
next
  case (3 gain)
  then show ?case by (simp add: readInt16LE_def)
qed

lemma gain_bytes_eq_Nil: "gain_bytes g a = [] \<longleftrightarrow> a = []"
  using length_gain_bytes [of g a] by (metis length_0_conv)

lemma gain_bytes_trailing: "odd (length a) \<Longrightarrow> last (gain_bytes g a) = 0"
  by (induction g a rule: gain_bytes.induct) (auto simp add: gain_bytes_eq_Nil)

lemma gain_bytes_trailing_input:
  "even (length a) \<Longrightarrow> gain_bytes g (a @ [x]) = gain_bytes g (a @ [y])"
  by (induction g a rule: gain_bytes.induct) simp_all

lemma adjustVolume_gain:
  assumes "volumeLevel s = Fin g" "g \<noteq> 1"
  shows "adjustVolume s b = Inr (gain_bytes g b)"
proof -
  have "adjustLoop (Fin g) b 0 ([] @ replicate (length b - 0) 0) = Inr ([] @ gain_bytes g (drop 0 b))"
    by (rule adjustLoop_gain) simp_all
  then show ?thesis using assms by (simp add: adjustVolume_def js_eq_def alloc_def)
qed

lemma adjustVolume_total:
  "\<exists>out. adjustVolume s b = Inr out \<and> length out = length b"
proof (cases "js_eq (volumeLevel s) (Fin 1)")
  case True
  then show ?thesis by (simp add: adjustVolume_def)
next
  case False
  have "length (alloc (length b)) = length b" by (simp add: alloc_def)
  from adjustLoop_total [OF this, of "volumeLevel s" 0] False
  show ?thesis by (simp add: adjustVolume_def)
qed

lemma round_double_10000: "round_double 10000 = 10000"
  by code_simp

text \<open>
  Claim C7 says that a trailing odd byte is left untouched. \<open>adjustVolume\<close> returns a new
  buffer, filled with zeros by the allocation, and writes whole samples only: the last byte
  of an input of odd length is not copied. At level 0.5 the bytes 20 4E 07 come back as
  10 27 00: the sample 20000 is halved and the byte 07 has become 00.
\<close>

theorem adjustVolume_trailing_byte_counterexample:
  "adjustVolume ((constructor ''MZ'')\<lparr>volumeLevel := Fin (1 / 2)\<rparr>) [0x20, 0x4E, 0x07]
     = Inr [0x10, 0x27, 0x00]
   \<and> last [0x20, 0x4E, 0x07 :: byte] \<noteq> last [0x10, 0x27, 0x00 :: byte]"
proof
  let ?s = "(constructor ''MZ'')\<lparr>volumeLevel := Fin (1 / 2)\<rparr>"
  have level: "volumeLevel ?s = Fin (1 / 2)" by simp
  have "(1 / 2 :: rat) \<noteq> 1" by simp
  with level have "adjustVolume ?s [0x20, 0x4E, 0x07] = Inr (gain_bytes (1 / 2) [0x20, 0x4E, 0x07])"
    by (rule adjustVolume_gain)
  also have "gain_bytes (1 / 2) [0x20, 0x4E, 0x07] = [0x10, 0x27, 0x00]"
    by (simp add: scaled_sample_def sample16_def clamp16_def round_double_10000)
  finally show "adjustVolume ?s [0x20, 0x4E, 0x07] = Inr [0x10, 0x27, 0x00]" .
  show "last [0x20, 0x4E, 0x07 :: byte] \<noteq> last [0x10, 0x27, 0x00 :: byte]" by simp
qed

text \<open>
  Claim C7, amended. At a finite volume level \<open>g\<close> other than 1 (in particular at every
  level of \<open>[0, 1)\<close>), \<open>adjustVolume\<close> returns a buffer of the same length in which every
  whole little-endian 16-bit sample \<open>s\<close> of the input is replaced by \<open>floor (s * g)\<close> clamped
  to \<open>[-32768, 32767]\<close>, the product being the rounded product of the language; every
  sample read back from the output lies in that range, so nothing wraps around. Only whole
  two-byte samples are treated: the last byte of a buffer of odd length is ignored (it is
  not read, and the result is the same whatever that byte is) and is not copied: the output
  has the zero of the allocation at its place.
\<close>

theorem adjustVolume_scales_and_clamps:
  assumes "volumeLevel s = Fin g" and "g \<noteq> 1"
  shows "\<exists>out. adjustVolume s b = Inr out \<and> length out = length b \<and>
           (\<forall>k sample. readInt16LE b (2 * k) = Inr sample \<longrightarrow>
              readInt16LE out (2 * k)
                = Inr (min (max \<lfloor>round_double (of_int sample * g)\<rfloor> (- 32768)) 32767)) \<and>
           (\<forall>k v. readInt16LE out (2 * k) = Inr v \<longrightarrow> - 32768 \<le> v \<and> v \<le> 32767) \<and>
           (odd (length b) \<longrightarrow> last out = 0) \<and>
           (\<forall>a x y. b = a @ [x] \<and> odd (length b) \<longrightarrow> adjustVolume s (a @ [y]) = Inr out)"
proof (intro exI conjI allI impI)
  show "adjustVolume s b = Inr (gain_bytes g b)"
    using assms by (rule adjustVolume_gain)
  show "length (gain_bytes g b) = length b"
    by (rule length_gain_bytes)
next
  fix k sample
  assume "readInt16LE b (2 * k) = Inr sample"
  then have "readInt16LE (gain_bytes g b) (2 * k) = Inr (scaled_sample g sample)"
    by (rule gain_bytes_sample)
  then show "readInt16LE (gain_bytes g b) (2 * k)
             = Inr (min (max \<lfloor>round_double (of_int sample * g)\<rfloor> (- 32768)) 32767)"
    by (simp only: scaled_sample_def clamp16_def)
next
  fix k v
  assume r: "readInt16LE (gain_bytes g b) (2 * k) = Inr v"
  then have inb: "2 * k + 1 < length b"
    by (simp add: readInt16LE_def length_gain_bytes split: if_splits)
  then have "readInt16LE b (2 * k) = Inr (sample16 (b ! (2 * k)) (b ! (2 * k + 1)))"
    by (rule readInt16LE_in_range)
  then have "readInt16LE (gain_bytes g b) (2 * k)
             = Inr (scaled_sample g (sample16 (b ! (2 * k)) (b ! (2 * k + 1))))"
    by (rule gain_bytes_sample)
  with r have "v = scaled_sample g (sample16 (b ! (2 * k)) (b ! (2 * k + 1)))" by simp
  then show "- 32768 \<le> v" "v \<le> 32767" using scaled_sample_range by simp_all
next
  assume "odd (length b)"
  then show "last (gain_bytes g b) = 0" by (rule gain_bytes_trailing)
next
  fix a x y
  assume "b = a @ [x] \<and> odd (length b)"
  then have "b = a @ [x]" and "even (length a)" by auto
  then have "gain_bytes g (a @ [y]) = gain_bytes g b"
    using gain_bytes_trailing_input [of a g y x] by simp
  then show "adjustVolume s (a @ [y]) = Inr (gain_bytes g b)"
    using adjustVolume_gain [OF assms, of "a @ [y]"] by simp
qed

theorem adjustVolume_scales_and_clamps_witness:
  "\<exists>out. adjustVolume ((constructor ''MZ'')\<lparr>volumeLevel := Fin (1 / 2)\<rparr>) [0x20, 0x4E, 0x07] = Inr out
     \<and> length out = 3 \<and> readInt16LE out 0 = Inr 10000 \<and> last out = 0
     \<and> adjustVolume ((constructor ''MZ'')\<lparr>volumeLevel := Fin (1 / 2)\<rparr>) [0x20, 0x4E, 0xFF] = Inr out"
proof -
  let ?s = "(constructor ''MZ'')\<lparr>volumeLevel := Fin (1 / 2)\<rparr>"
  let ?b = "[0x20, 0x4E, 0x07] :: byte list"
  have level: "volumeLevel ?s = Fin (1 / 2)" by simp
  have ne: "(1 / 2 :: rat) \<noteq> 1" by simp
  have rd: "readInt16LE ?b (2 * 0) = Inr 20000"
    by (simp add: readInt16LE_def)
  have half: "min (max \<lfloor>round_double (of_int 20000 * (1 / 2))\<rfloor> (- 32768)) 32767 = (10000 :: int)"
    by code_simp
  have split: "?b = [0x20, 0x4E] @ [0x07] \<and> odd (length ?b)" by simp
  from adjustVolume_scales_and_clamps [OF level ne, of ?b]
  obtain out where out: "adjustVolume ?s ?b = Inr out" "length out = length ?b"
    and samples: "\<forall>k sample. readInt16LE ?b (2 * k) = Inr sample \<longrightarrow>
        readInt16LE out (2 * k)
          = Inr (min (max \<lfloor>round_double (of_int sample * (1 / 2))\<rfloor> (- 32768)) 32767)"
    and trailing: "odd (length ?b) \<longrightarrow> last out = 0"
    and ignored: "\<forall>a x y. ?b = a @ [x] \<and> odd (length ?b) \<longrightarrow> adjustVolume ?s (a @ [y]) = Inr out"
    by blast
  from samples rd have "readInt16LE out (2 * 0)
      = Inr (min (max \<lfloor>round_double (of_int 20000 * (1 / 2))\<rfloor> (- 32768)) 32767)"
    by blast
  then have "readInt16LE out 0 = Inr 10000" by (simp only: half mult_zero_right)
  moreover from trailing have "last out = 0" by simp
  moreover from ignored split have "adjustVolume ?s ([0x20, 0x4E] @ [0xFF]) = Inr out" by blast
  ultimately show ?thesis using out by simp
qed

text \<open>
  Claim C8. For every volume level, hence for every valid gain in \<open>[0, 1]\<close>, \<open>adjustVolume\<close>
  returns a buffer of the length of its input; at level 1 it returns the input itself.
\<close>

theorem adjustVolume_length_and_identity:
  "(\<exists>out. adjustVolume s b = Inr out \<and> length out = length b) \<and>
   adjustVolume (s\<lparr>volumeLevel := Fin 1\<rparr>) b = Inr b"
  using adjustVolume_total [of s b] by (simp add: adjustVolume_def js_eq_def)

section \<open>The bounded queue: \<open>enqueue\<close>\<close>

lemma processNext_fields:
  "queue (processNext s) = queue s"
  "packetDuration (processNext s) = packetDuration s"
  "volumeLevel (processNext s) = volumeLevel s"
  "bufferLimit (processNext s) = bufferLimit s"
  "sent (processNext s) = sent s"
  "streamSid (processNext s) = streamSid s"
  by (simp_all add: processNext_def)

lemma enqueue_full:
  "js_ge (Fin (of_nat (length (queue s)))) (bufferLimit s) \<Longrightarrow>
   enqueue mediaData s
   = (None, s\<lparr>console := console s @ [LogWarn ''Buffer limit reached. Incoming packet dropped.'']\<rparr>)"
  by (simp add: enqueue_def)

lemma enqueue_admitted:
  "\<not> js_ge (Fin (of_nat (length (queue s)))) (bufferLimit s) \<Longrightarrow>
   enqueue mediaData s
   = (None, processNext (s\<lparr>queue := queue s @ [admitted (volumeLevel s) mediaData]\<rparr>))"
  by (cases "media_field mediaData") (simp_all add: enqueue_def admitted_def adjustVolume_def)

lemma js_ge_of_nat: "js_ge (Fin (of_nat k)) (Fin (of_nat n)) = (n \<le> k)"
  by (auto simp add: js_ge_def)

lemma enqueue_fields:
  "volumeLevel (snd (enqueue m s)) = volumeLevel s"
  "bufferLimit (snd (enqueue m s)) = bufferLimit s"
  "packetDuration (snd (enqueue m s)) = packetDuration s"
  "sent (snd (enqueue m s)) = sent s"
  by (cases "js_ge (Fin (of_nat (length (queue s)))) (bufferLimit s)";
      simp add: enqueue_full enqueue_admitted processNext_fields)+

lemma enqueue_queue:
  assumes "bufferLimit s = Fin (of_nat n)"
  shows "queue (snd (enqueue m s))
         = (if n \<le> length (queue s) then queue s else queue s @ [admitted (volumeLevel s) m])"
proof (cases "n \<le> length (queue s)")
  case True
  then have "js_ge (Fin (of_nat (length (queue s)))) (bufferLimit s)"
    by (simp add: assms js_ge_of_nat)
  then show ?thesis using True by (simp add: enqueue_full)
next
  case False
  then have "\<not> js_ge (Fin (of_nat (length (queue s)))) (bufferLimit s)"
    by (simp add: assms js_ge_of_nat)
  then show ?thesis using False by (simp add: enqueue_admitted processNext_fields)
qed

lemma offers_queue:
  "bufferLimit s = Fin (of_nat n) \<Longrightarrow> length (queue s) \<le> n \<Longrightarrow>
   queue (offers ms s) = take n (queue s @ map (admitted (volumeLevel s)) ms)"
proof (induction ms arbitrary: s)
  case Nil
  then show ?case by simp
next
  case (Cons m ms)
  let ?s' = "snd (enqueue m s)"
  have lim: "bufferLimit ?s' = Fin (of_nat n)" using Cons.prems by (simp add: enqueue_fields)
  have q: "queue ?s' = (if n \<le> length (queue s) then queue s
                        else queue s @ [admitted (volumeLevel s) m])"
    using Cons.prems(1) by (rule enqueue_queue)
  have len: "length (queue ?s') \<le> n" using Cons.prems(2) by (simp add: q)
  have "queue (offers (m # ms) s) = take n (queue ?s' @ map (admitted (volumeLevel ?s')) ms)"
    using Cons.IH [OF lim len] by simp
  also have "\<dots> = take n (queue s @ map (admitted (volumeLevel s)) (m # ms))"
  proof (cases "n \<le> length (queue s)")
    case True
    with Cons.prems(2) have "length (queue s) = n" by simp
    then show ?thesis by (simp add: q enqueue_fields)
  next
    case False
    have "(queue s @ [admitted (volumeLevel s) m]) @ map (admitted (volumeLevel s)) ms
          = queue s @ map (admitted (volumeLevel s)) (m # ms)" by simp
    with False show ?thesis by (simp only: q enqueue_fields if_False)
  qed
  finally show ?case .
qed

lemma not_unit_admitted: "\<not> js_eq level (Fin 1) \<Longrightarrow> admitted level mediaData = mediaData"
  by (simp add: admitted_def split: option.splits)

lemma setVolume_valid:
  "0 \<le> g \<Longrightarrow> g \<le> 1 \<Longrightarrow> setVolume (JNum (Fin g)) s = (None, s\<lparr>volumeLevel := Fin g\<rparr>)"
  by (auto simp add: setVolume_def js_gt_def Math_max_def Math_min_def)

lemma setVolume_rejects:
  "(\<forall>x. volume \<noteq> JNum x) \<or> volume = JNum PosInfinity \<or> volume = JNum NegInfinity
   \<or> (\<exists>g. volume = JNum (Fin g) \<and> (g < 0 \<or> 1 < g)) \<Longrightarrow>
   setVolume volume s
   = (Some (Error ''Invalid volume level. It should be a number between 0 and 1.''), s)"
  by (cases volume) (auto simp add: setVolume_def js_gt_def)

lemma setVolume_fields:
  "queue (snd (setVolume v s)) = queue s"
  "sent (snd (setVolume v s)) = sent s"
  "streamSid (snd (setVolume v s)) = streamSid s"
  "packetDuration (snd (setVolume v s)) = packetDuration s"
  by (cases v; simp add: setVolume_def)+

lemma setBufferLimit_fields:
  "queue (snd (setBufferLimit v s)) = queue s"
  "packetDuration (snd (setBufferLimit v s)) = packetDuration s"
  by (cases v; simp add: setBufferLimit_def)+

text \<open>
  Claim C1 says that at a gain other than 1 the message admitted to the queue carries the
  scaled payload. The code does not do that: \<open>enqueue\<close> calls \<open>adjustVolume\<close> only when
  the volume level is 1, where \<open>adjustVolume\<close> returns its input. After \<open>setVolume(0.5)\<close>
  and \<open>media('IE4=')\<close> (the bytes 20 4E, one sample of value 20000) the queue holds the
  payload \<open>IE4=\<close> as it came, although \<open>adjustVolume\<close> at that level turns these bytes into
  10 27, the sample 10000, whose text is \<open>ECc=\<close>.
\<close>

theorem enqueue_leaves_payload_unscaled:
  "queue (snd (media ''IE4='' (snd (setVolume (JNum (Fin (1 / 2))) (constructor ''MZ'')))))
     = [\<lparr>event = MediaEvent, media_field = Some ''IE4='', mark_field = None\<rparr>]
   \<and> base64_decode ''IE4='' = [0x20, 0x4E]
   \<and> readInt16LE [0x20, 0x4E] 0 = Inr 20000
   \<and> adjustVolume (snd (setVolume (JNum (Fin (1 / 2))) (constructor ''MZ''))) [0x20, 0x4E]
       = Inr [0x10, 0x27]
   \<and> readInt16LE [0x10, 0x27] 0 = Inr 10000
   \<and> base64_encode [0x10, 0x27] = ''ECc=''"
proof (intro conjI)
  let ?t = "(constructor ''MZ'')\<lparr>volumeLevel := Fin (1 / 2)\<rparr>"
  have s: "snd (setVolume (JNum (Fin (1 / 2))) (constructor ''MZ'')) = ?t"
    by (simp add: setVolume_valid)
  have level: "volumeLevel ?t = Fin (1 / 2)" by simp
  have "queue (snd (media ''IE4='' ?t))
      = [\<lparr>event = MediaEvent, media_field = Some ''IE4='', mark_field = None\<rparr>]"
    by (simp add: media_def enqueue_def js_ge_def js_eq_def processNext_def constructor_def)
  then show "queue (snd (media ''IE4='' (snd (setVolume (JNum (Fin (1 / 2))) (constructor ''MZ'')))))
      = [\<lparr>event = MediaEvent, media_field = Some ''IE4='', mark_field = None\<rparr>]"
    by (simp only: s)
  show "base64_decode ''IE4='' = [0x20, 0x4E]"
    by (simp add: base64_decode_def unbase64_def base64_alphabet_def)
  show "readInt16LE [0x20, 0x4E] 0 = Inr 20000"
    by (simp add: readInt16LE_def)
  have "(1 / 2 :: rat) \<noteq> 1" by simp
  with level have "adjustVolume ?t [0x20, 0x4E] = Inr (gain_bytes (1 / 2) [0x20, 0x4E])"
    by (rule adjustVolume_gain)
  also have "gain_bytes (1 / 2) [0x20, 0x4E] = [0x10, 0x27]"
    by (simp add: scaled_sample_def sample16_def clamp16_def round_double_10000)
  finally show "adjustVolume (snd (setVolume (JNum (Fin (1 / 2))) (constructor ''MZ'')))
      [0x20, 0x4E] = Inr [0x10, 0x27]"
    by (simp only: s)
  show "readInt16LE [0x10, 0x27] 0 = Inr 10000"
    by (simp add: readInt16LE_def)
  show "base64_encode [0x10, 0x27] = ''ECc=''"
    by (simp add: base64_char_def base64_alphabet_def)
qed

text \<open>
  Claim C2 says that \<open>setVolume\<close> fails for every argument that is not a finite number of
  \<open>[0, 1]\<close>, NaN among them. The test of the code, \<open>volume < 0 || volume > 1\<close>, is false for
  NaN, and so is the type test: NaN is accepted and becomes the volume level. (Every other
  such argument is rejected with the state unchanged, and a number of \<open>[0, 1]\<close> is stored:
  \<open>setVolume_rejects\<close>, \<open>setVolume_valid\<close>.)
\<close>

theorem setVolume_stores_NaN:
  "setVolume (JNum NaN) s = (None, s\<lparr>volumeLevel := NaN\<rparr>)"
  by (simp add: setVolume_def js_gt_def Math_max_def Math_min_def)

text \<open>
  Claim C3. With a capacity \<open>n\<close> (a count) and a queue that holds at most \<open>n\<close> messages, any
  sequence of calls of \<open>enqueue\<close> leaves at most \<open>n\<close> messages in the queue; a call made when
  the queue holds \<open>n\<close> messages raises nothing, leaves the queue as it is (the new message is
  dropped, no old one evicted), sends nothing and writes the warning; the queue after the
  calls is the first \<open>n\<close> messages of the old queue followed by the offered messages in
  their order, each as \<open>enqueue\<close> stores it, so from an empty queue it is the first \<open>n\<close>
  offers.
\<close>

theorem queue_bounded_drop_newest_fifo:
  assumes "bufferLimit s = Fin (of_nat n)" and "length (queue s) \<le> n"
  shows "length (queue (offers ms s)) \<le> n \<and>
         (length (queue s) = n \<longrightarrow>
            fst (enqueue m s) = None \<and> queue (snd (enqueue m s)) = queue s \<and>
            sent (snd (enqueue m s)) = sent s \<and>
            console (snd (enqueue m s))
              = console s @ [LogWarn ''Buffer limit reached. Incoming packet dropped.'']) \<and>
         queue (offers ms s) = take n (queue s @ map (admitted (volumeLevel s)) ms) \<and>
         (queue s = [] \<longrightarrow>
            queue (offers ms s) = map (admitted (volumeLevel s)) (take n ms))"
proof (intro conjI impI)
  show fifo: "queue (offers ms s) = take n (queue s @ map (admitted (volumeLevel s)) ms)"
    using assms by (rule offers_queue)
  then show "length (queue (offers ms s)) \<le> n" by simp
  assume "queue s = []"
  with fifo show "queue (offers ms s) = map (admitted (volumeLevel s)) (take n ms)"
    by (simp add: take_map)
next
  assume full: "length (queue s) = n"
  then have ge: "js_ge (Fin (of_nat (length (queue s)))) (bufferLimit s)"
    by (simp add: assms js_ge_of_nat)
  show "fst (enqueue m s) = None" "queue (snd (enqueue m s)) = queue s"
    "sent (snd (enqueue m s)) = sent s"
    "console (snd (enqueue m s))
       = console s @ [LogWarn ''Buffer limit reached. Incoming packet dropped.'']"
    by (simp_all add: enqueue_full [OF ge])
qed

theorem queue_bounded_drop_newest_fifo_witness:
  "queue (offers
      [\<lparr>event = MarkEvent, media_field = None, mark_field = Some ''a''\<rparr>,
       \<lparr>event = MarkEvent, media_field = None, mark_field = Some ''b''\<rparr>,
       \<lparr>event = MarkEvent, media_field = None, mark_field = Some ''c''\<rparr>]
      ((constructor ''MZ'')\<lparr>bufferLimit := Fin 2\<rparr>))
   = [\<lparr>event = MarkEvent, media_field = None, mark_field = Some ''a''\<rparr>,
      \<lparr>event = MarkEvent, media_field = None, mark_field = Some ''b''\<rparr>]"
proof -
  let ?s = "(constructor ''MZ'')\<lparr>bufferLimit := Fin 2\<rparr>"
  have lim: "bufferLimit ?s = Fin (of_nat 2)" by simp
  have len: "length (queue ?s) \<le> 2" by (simp add: constructor_def)
  have empty: "queue ?s = []" by (simp add: constructor_def)
  let ?ms = "[\<lparr>event = MarkEvent, media_field = None, mark_field = Some ''a''\<rparr>,
       \<lparr>event = MarkEvent, media_field = None, mark_field = Some ''b''\<rparr>,
       \<lparr>event = MarkEvent, media_field = None, mark_field = Some ''c''\<rparr>]"
  from queue_bounded_drop_newest_fifo [OF lim len, of ?ms] empty
  have "queue (offers ?ms ?s) = map (admitted (volumeLevel ?s)) (take 2 ?ms)" by blast
  also have "\<dots> = [\<lparr>event = MarkEvent, media_field = None, mark_field = Some ''a''\<rparr>,
      \<lparr>event = MarkEvent, media_field = None, mark_field = Some ''b''\<rparr>]"
    by (simp add: admitted_def)
  finally show ?thesis .
qed

section \<open>The pacer: \<open>sendNext\<close>\<close>

lemma duration_of_length: "duration_of payload = duration_ms (length (base64_decode payload))"
  by (simp only: duration_of_def duration_ms_def channels_def bytesPerSample_def sampleRate_def Let_def)

lemma round_double_values:
  "round_double 2 = 2"
  "round_double 8000 = 8000"
  "round_double (1 / 2) = 1 / 2"
  "round_double 500 = 500"
  "round_double 16 = 16"
  "round_double (1 / 1000) = 1152921504606847 / 1152921504606846976"
  "round_double (144115188075855875 / 144115188075855872) = 1"
  by code_simp+

lemma duration_ms_16000: "duration_ms 16000 = Fin 500"
proof -
  have a: "to_number 2 = Fin 2"
    by (rule to_number_small) (simp_all add: round_double_values)
  have b: "to_number 8000 = Fin 8000"
    by (rule to_number_small) (simp_all add: round_double_values)
  have c: "to_number (1 / 2) = Fin (1 / 2)"
    by (rule to_number_small) (simp_all add: round_double_values)
  have d: "to_number 500 = Fin 500"
    by (rule to_number_small) (simp_all add: round_double_values)
  show ?thesis by (simp add: duration_ms_def a b c d)
qed

lemma duration_ms_0: "duration_ms 0 = Fin 0"
proof -
  have a: "to_number 2 = Fin 2"
    by (rule to_number_small) (simp_all add: round_double_values)
  have z: "to_number 0 = Fin 0"
    by (rule to_number_small) (simp_all add: round_double_def)
  show ?thesis by (simp add: duration_ms_def a z)
qed

lemma duration_ms_32: "duration_ms 32 = Fin 1"
proof -
  have a: "to_number 2 = Fin 2"
    by (rule to_number_small) (simp_all add: round_double_values)
  have b: "to_number 16 = Fin 16"
    by (rule to_number_small) (simp_all add: round_double_values)
  have c: "to_number (1 / 1000) = Fin (1152921504606847 / 1152921504606846976)"
    by (rule to_number_small) (simp_all add: round_double_values)
  have d: "to_number (144115188075855875 / 144115188075855872) = Fin 1"
    by (rule to_number_small) (simp_all add: round_double_values)
  show ?thesis by (simp add: duration_ms_def a b c d)
qed

lemma sendNext_media:
  "queue s = m # rest \<Longrightarrow> media_field m = Some payload \<Longrightarrow> payload \<noteq> [] \<Longrightarrow>
   packetDuration (sendNext s) = duration_of payload"
  by (simp add: sendNext_def Let_def processNext_fields sendToTwilio_def
      split: send_outcome.splits)

lemma sendNext_empty_payload:
  "queue s = m # rest \<Longrightarrow> media_field m = Some [] \<Longrightarrow>
   packetDuration (sendNext s) = packetDuration s"
  by (simp add: sendNext_def Let_def processNext_fields sendToTwilio_def
      split: send_outcome.splits)

lemma sendNext_no_media:
  "queue s = m # rest \<Longrightarrow> media_field m = None \<Longrightarrow>
   packetDuration (sendNext s) = packetDuration s"
  by (simp add: sendNext_def Let_def processNext_fields sendToTwilio_def
      split: send_outcome.splits)

lemma sendNext_empty_queue:
  "queue s = [] \<Longrightarrow> sendNext s = s\<lparr>isSending := False, packetDuration := Fin 0\<rparr>"
  by (simp add: sendNext_def)

lemma sendNext_sent:
  "queue s = m # rest \<Longrightarrow>
   sent (sendNext s) = sent s @
     [\<lparr>wire_event = event m, wire_streamSid = streamSid s,
       wire_media = media_field m, wire_mark = mark_field m\<rparr>]"
  by (cases "media_field m")
    (simp_all add: sendNext_def Let_def processNext_fields sendToTwilio_def
      split: send_outcome.splits)

lemma sendNext_queue: "queue s = m # rest \<Longrightarrow> queue (sendNext s) = rest"
  by (cases "media_field m")
    (simp_all add: sendNext_def Let_def processNext_fields sendToTwilio_def
      split: send_outcome.splits)

lemma base64_decode_group:
  "base64_decode (''AAAA'' @ text) = [0, 0, 0] @ base64_decode text"
  by (simp add: base64_decode_def unbase64_def base64_alphabet_def)

lemma length_base64_decode_zeros:
  "length (base64_decode (concat (replicate k ''AAAA'') @ ''AA=='')) = 3 * k + 1"
proof (induction k)
  case 0
  show ?case by (simp add: base64_decode_def unbase64_def base64_alphabet_def)
next
  case (Suc k)
  have "concat (replicate (Suc k) ''AAAA'') @ ''AA==''
        = ''AAAA'' @ (concat (replicate k ''AAAA'') @ ''AA=='')" by simp
  then show ?case using Suc by (simp only: base64_decode_group) simp
qed

lemma onMessage_packetDuration: "packetDuration (onMessage parsed s) = packetDuration s"
  by (simp add: onMessage_def split: sum.splits)

lemma clear_fields:
  "packetDuration (snd (clear s)) = packetDuration s"
  "timers (snd (clear s)) = timers s"
  "sent (snd (clear s)) = sent s @
     [\<lparr>wire_event = ClearEvent, wire_streamSid = streamSid s, wire_media = None, wire_mark = None\<rparr>]"
  by (simp_all add: clear_def clearQueue_def sendToTwilio_def split: send_outcome.splits)

lemma clear_returns:
  "socket s = Returns \<Longrightarrow> fst (clear s) = None \<and> queue (snd (clear s)) = []"
  by (simp add: clear_def clearQueue_def sendToTwilio_def)

lemma clear_raises:
  "socket s = Raises \<Longrightarrow>
   fst (clear s) = Some (Error ''WebSocket is not open'') \<and> queue (snd (clear s)) = queue s"
  by (simp add: clear_def clearQueue_def sendToTwilio_def)

lemma timerFires_empty_queue:
  "queue s = [] \<Longrightarrow> sent (timerFires s) = sent s \<and> queue (timerFires s) = []"
  by (simp add: timerFires_def sendNext_def split: list.splits)

text \<open>
  Claim C4 says that the duration of every drained media message is computed from its
  payload. It is not for a payload that is the empty text: the test
  \<open>socketMessage?.media?.payload\<close> fails and \<open>packetDuration\<close> keeps the value of the
  packet before. After \<open>media\<close> of a payload of 32 bytes and \<open>media('')\<close>, the first timer
  sends the first message and sets the duration to 1; the queue then holds the media message
  with the empty payload, and when the second timer has sent it the duration is still 1,
  where the formula gives 0 for its zero bytes.
\<close>

theorem sendNext_stale_duration_counterexample:
  "queue (timerFires (snd (media '''' (snd (media
      ''AAAAAAAAAAAAAAAAAAAAAAAAAAAAAAAAAAAAAAAAAAA='' (constructor ''MZ''))))))
     = [\<lparr>event = MediaEvent, media_field = Some '''', mark_field = None\<rparr>]
   \<and> packetDuration (timerFires (timerFires (snd (media '''' (snd (media
      ''AAAAAAAAAAAAAAAAAAAAAAAAAAAAAAAAAAAAAAAAAAA='' (constructor ''MZ'')))))))
     = Fin 1
   \<and> duration_ms (length (base64_decode '''')) = Fin 0"
proof -
  let ?p = "''AAAAAAAAAAAAAAAAAAAAAAAAAAAAAAAAAAAAAAAAAAA=''"
  let ?zeros = "[0, 0, 0, 0, 0, 0, 0, 0, 0, 0, 0, 0, 0, 0, 0, 0, 0, 0, 0, 0, 0, 0, 0, 0, 0, 0, 0, 0, 0, 0, 0, 0] :: byte list"
  have dec: "base64_decode ?p = ?zeros"
    by (simp add: base64_decode_def unbase64_def base64_alphabet_def)
  have enc: "base64_encode ?zeros = ?p"
    by (simp add: base64_char_def base64_alphabet_def)
  have len: "length ?zeros = 32" by simp
  have reenc: "base64_encode (base64_decode ?p) = ?p" by (simp only: dec enc)
  have s1: "snd (media ?p (constructor ''MZ''))
      = (constructor ''MZ'')
          \<lparr>queue := [\<lparr>event = MediaEvent, media_field = Some ?p, mark_field = None\<rparr>],
           isSending := True, timers := [Fin 0]\<rparr>"
    by (simp add: media_def enqueue_def adjustVolume_def js_eq_def js_ge_def reenc
        processNext_def constructor_def)
  have s2: "snd (media '''' (snd (media ?p (constructor ''MZ''))))
      = (constructor ''MZ'')
          \<lparr>queue := [\<lparr>event = MediaEvent, media_field = Some ?p, mark_field = None\<rparr>,
                      \<lparr>event = MediaEvent, media_field = Some '''', mark_field = None\<rparr>],
           isSending := True, timers := [Fin 0]\<rparr>"
    unfolding s1
    by (simp add: media_def enqueue_def adjustVolume_def js_eq_def js_ge_def
        base64_decode_def processNext_def constructor_def)
  have d: "duration_of ?p = Fin 1"
    by (simp only: duration_of_length dec len duration_ms_32)
  have s3: "timerFires (snd (media '''' (snd (media ?p (constructor ''MZ'')))))
      = (constructor ''MZ'')
          \<lparr>queue := [\<lparr>event = MediaEvent, media_field = Some '''', mark_field = None\<rparr>],
           isSending := True, timers := [Fin 1], packetDuration := Fin 1,
           sent := [\<lparr>wire_event = MediaEvent, wire_streamSid = ''MZ'', wire_media = Some ?p,
                      wire_mark = None\<rparr>]\<rparr>"
    unfolding s2
    by (simp add: timerFires_def sendNext_def sendToTwilio_def processNext_def d constructor_def)
  have s4: "packetDuration (timerFires (timerFires
      (snd (media '''' (snd (media ?p (constructor ''MZ'')))))))
      = Fin 1"
    unfolding s3
    by (simp add: timerFires_def sendNext_def sendToTwilio_def processNext_def constructor_def)
  have z: "duration_ms (length (base64_decode '''')) = Fin 0"
    by (simp add: base64_decode_def duration_ms_0)
  show ?thesis using s3 s4 z by simp
qed

text \<open>
  Claim C4, amended. When \<open>sendNext\<close> takes a media message whose payload text is not
  empty, \<open>packetDuration\<close> becomes \<open>(n / (channels * bytesPerSample)) / sampleRate * 1000\<close>
  with \<open>channels = 1\<close>, \<open>bytesPerSample = 2\<close>, \<open>sampleRate = 16000\<close> and \<open>n\<close> the number of bytes
  of the decoded payload, not the length of its base64 text; for 16000 bytes it is exactly
  500. A media message whose payload is the empty text leaves \<open>packetDuration\<close> as it was.
\<close>

theorem sendNext_computes_duration:
  assumes "queue s = m # rest" and "media_field m = Some payload"
  shows "(payload \<noteq> [] \<longrightarrow>
            packetDuration (sendNext s)
              = js_mul (js_div (js_div (Fin (of_nat (length (base64_decode payload))))
                                       (js_mul channels bytesPerSample)) sampleRate) (Fin 1000)
            \<and> channels = Fin 1 \<and> bytesPerSample = Fin 2 \<and> sampleRate = Fin 16000
            \<and> (length (base64_decode payload) = 16000 \<longrightarrow> packetDuration (sendNext s) = Fin 500))
         \<and> (payload = [] \<longrightarrow> packetDuration (sendNext s) = packetDuration s)"
proof (intro conjI impI)
  assume ne: "payload \<noteq> []"
  from assms ne have d: "packetDuration (sendNext s) = duration_of payload"
    by (rule sendNext_media)
  then show "packetDuration (sendNext s)
      = js_mul (js_div (js_div (Fin (of_nat (length (base64_decode payload))))
                               (js_mul channels bytesPerSample)) sampleRate) (Fin 1000)"
    by (simp only: duration_of_def Let_def)
  show "channels = Fin 1" "bytesPerSample = Fin 2" "sampleRate = Fin 16000"
    by (simp_all only: channels_def bytesPerSample_def sampleRate_def)
  assume "length (base64_decode payload) = 16000"
  with d show "packetDuration (sendNext s) = Fin 500"
    by (simp only: duration_of_length duration_ms_16000)
next
  assume "payload = []"
  with assms show "packetDuration (sendNext s) = packetDuration s"
    by (simp add: sendNext_empty_payload)
qed

theorem sendNext_computes_duration_witness:
  "packetDuration (sendNext ((constructor ''MZ'')
      \<lparr>queue := [\<lparr>event = MediaEvent,
                  media_field = Some (concat (replicate 5333 ''AAAA'') @ ''AA==''),
                  mark_field = None\<rparr>]\<rparr>)) = Fin 500
   \<and> packetDuration (sendNext ((constructor ''MZ'')
      \<lparr>queue := [\<lparr>event = MediaEvent, media_field = Some [], mark_field = None\<rparr>],
       packetDuration := Fin 20\<rparr>)) = Fin 20"
proof -
  let ?p = "concat (replicate 5333 ''AAAA'') @ ''AA==''"
  let ?m = "\<lparr>event = MediaEvent, media_field = Some ?p, mark_field = None\<rparr>"
  let ?s = "(constructor ''MZ'')\<lparr>queue := [?m]\<rparr>"
  let ?e = "\<lparr>event = MediaEvent, media_field = Some [], mark_field = None\<rparr>"
  let ?t = "(constructor ''MZ'')\<lparr>queue := [?e], packetDuration := Fin 20\<rparr>"
  have q: "queue ?s = ?m # []" by simp
  have f: "media_field ?m = Some ?p" by simp
  have ne: "?p \<noteq> []" by (simp only: append_is_Nil_conv) simp
  have len: "length (base64_decode ?p) = 16000"
    by (simp only: length_base64_decode_zeros)
  have q2: "queue ?t = ?e # []" by simp
  have f2: "media_field ?e = Some []" by simp
  from sendNext_computes_duration [OF q f] ne len
  have "packetDuration (sendNext ?s) = Fin 500" by blast
  moreover from sendNext_computes_duration [OF q2 f2]
  have "packetDuration (sendNext ?t) = packetDuration ?t" by blast
  ultimately show ?thesis by simp
qed

text \<open>
  Claim C5 says that every call of \<open>clear\<close> leaves the queue empty. \<open>clear\<close> empties the
  queue after \<open>sendToTwilio\<close> and catches nothing, so when \<open>socket.send\<close> raises the error
  leaves \<open>clear\<close> before \<open>clearQueue\<close> is reached: on a socket whose \<open>send\<close> raises, after
  \<open>mark('chunk1')\<close> the call of \<open>clear\<close> raises and the queue still holds the mark.
\<close>

theorem clear_raising_send_counterexample:
  "fst (clear (snd (mark ''chunk1'' ((constructor ''MZ'')\<lparr>socket := Raises\<rparr>))))
     = Some (Error ''WebSocket is not open'')
   \<and> queue (snd (clear (snd (mark ''chunk1'' ((constructor ''MZ'')\<lparr>socket := Raises\<rparr>)))))
     = [\<lparr>event = MarkEvent, media_field = None, mark_field = Some ''chunk1''\<rparr>]"
proof -
  let ?s = "snd (mark ''chunk1'' ((constructor ''MZ'')\<lparr>socket := Raises\<rparr>))"
  have q: "queue ?s = [\<lparr>event = MarkEvent, media_field = None, mark_field = Some ''chunk1''\<rparr>]"
    by (simp add: mark_def enqueue_def js_ge_def processNext_def constructor_def)
  have r: "socket ?s = Raises"
    by (simp add: mark_def enqueue_def js_ge_def processNext_def constructor_def)
  from clear_raises [OF r] q show ?thesis by simp
qed

text \<open>
  Claim C5, amended. Whatever the state (a drain timer pending or not), \<open>clear\<close> hands
  exactly one message to \<open>socket.send\<close>, the Clear message, at once and not through the
  queue, and leaves the pending timers. When that call returns, \<open>clear\<close> raises nothing and
  leaves the queue empty, and a timer that fires afterwards finds the queue empty and sends
  nothing. When that call raises, \<open>clear\<close> raises the error and leaves the queue as it was.
\<close>

theorem clear_hands_over_one_Clear:
  "sent (snd (clear s)) = sent s @
     [\<lparr>wire_event = ClearEvent, wire_streamSid = streamSid s, wire_media = None, wire_mark = None\<rparr>]
   \<and> timers (snd (clear s)) = timers s
   \<and> (socket s = Returns \<longrightarrow>
        fst (clear s) = None \<and> queue (snd (clear s)) = [] \<and> length (queue (snd (clear s))) = 0
        \<and> sent (timerFires (snd (clear s))) = sent (snd (clear s))
        \<and> queue (timerFires (snd (clear s))) = [])
   \<and> (socket s = Raises \<longrightarrow>
        fst (clear s) = Some (Error ''WebSocket is not open'') \<and> queue (snd (clear s)) = queue s)"
proof (intro conjI impI)
  assume ret: "socket s = Returns"
  from clear_returns [OF ret] show "fst (clear s) = None" and empty: "queue (snd (clear s)) = []"
    by simp_all
  then show "length (queue (snd (clear s))) = 0" by simp
  from timerFires_empty_queue [OF empty]
  show "sent (timerFires (snd (clear s))) = sent (snd (clear s))"
    and "queue (timerFires (snd (clear s))) = []" by simp_all
next
  assume "socket s = Raises"
  from clear_raises [OF this]
  show "fst (clear s) = Some (Error ''WebSocket is not open'')"
    and "queue (snd (clear s)) = queue s" by simp_all
qed (simp_all add: clear_fields)

theorem clear_hands_over_one_Clear_witness:
  "queue (snd (clear ((constructor ''MZ'')
      \<lparr>queue := [\<lparr>event = MarkEvent, media_field = None, mark_field = Some ''m1''\<rparr>],
       isSending := True, timers := [Fin 0]\<rparr>))) = []
   \<and> sent (snd (clear ((constructor ''MZ'')
      \<lparr>queue := [\<lparr>event = MarkEvent, media_field = None, mark_field = Some ''m1''\<rparr>],
       isSending := True, timers := [Fin 0]\<rparr>)))
     = [\<lparr>wire_event = ClearEvent, wire_streamSid = ''MZ'', wire_media = None, wire_mark = None\<rparr>]
   \<and> queue (snd (clear ((constructor ''MZ'')
      \<lparr>queue := [\<lparr>event = MarkEvent, media_field = None, mark_field = Some ''m1''\<rparr>],
       socket := Raises\<rparr>)))
     = [\<lparr>event = MarkEvent, media_field = None, mark_field = Some ''m1''\<rparr>]"
proof -
  let ?m = "\<lparr>event = MarkEvent, media_field = None, mark_field = Some ''m1''\<rparr>"
  let ?s = "(constructor ''MZ'')\<lparr>queue := [?m], isSending := True, timers := [Fin 0]\<rparr>"
  let ?t = "(constructor ''MZ'')\<lparr>queue := [?m], socket := Raises\<rparr>"
  have ret: "socket ?s = Returns" by (simp add: constructor_def)
  have rai: "socket ?t = Raises" by simp
  from clear_hands_over_one_Clear [of ?s] ret
  have "queue (snd (clear ?s)) = []"
    and "sent (snd (clear ?s)) = sent ?s @
      [\<lparr>wire_event = ClearEvent, wire_streamSid = streamSid ?s, wire_media = None,
        wire_mark = None\<rparr>]"
    by blast+
  moreover from clear_hands_over_one_Clear [of ?t] rai
  have "queue (snd (clear ?t)) = queue ?t" by blast
  ultimately show ?thesis by (simp add: constructor_def)
qed

text \<open>
  Claim C6. \<open>sendNext\<close> leaves \<open>packetDuration\<close> unchanged when the message it sends has no
  \<open>media\<close> object, as is every message built by \<open>mark\<close> and the Clear message; it resets it
  to 0 when it finds the queue empty; and when it changes it otherwise, the message sent is
  a media message and the new value is the duration derived from the size of its payload
  and the fixed audio format. No other method changes \<open>packetDuration\<close>.
\<close>

theorem packetDuration_changes_only_for_media:
  "(queue s = m # rest \<and> media_field m = None \<longrightarrow> packetDuration (sendNext s) = packetDuration s)
   \<and> (queue s = [] \<longrightarrow> packetDuration (sendNext s) = Fin 0)
   \<and> (packetDuration (sendNext s) \<noteq> packetDuration s \<longrightarrow>
        queue s = [] \<or>
        (\<exists>item others payload. queue s = item # others \<and> media_field item = Some payload \<and>
           packetDuration (sendNext s) = duration_of payload \<and>
           duration_of payload = duration_ms (length (base64_decode payload))))
   \<and> packetDuration (snd (enqueue mediaData s)) = packetDuration s
   \<and> packetDuration (snd (clear s)) = packetDuration s
   \<and> packetDuration (processNext s) = packetDuration s
   \<and> packetDuration (snd (setVolume volume s)) = packetDuration s
   \<and> packetDuration (snd (setBufferLimit limit s)) = packetDuration s
   \<and> packetDuration (onMessage parsed s) = packetDuration s"
proof (intro conjI impI)
  assume "queue s = m # rest \<and> media_field m = None"
  then show "packetDuration (sendNext s) = packetDuration s"
    by (simp add: sendNext_no_media)
next
  assume "queue s = []"
  then show "packetDuration (sendNext s) = Fin 0" by (simp add: sendNext_empty_queue)
next
  assume changed: "packetDuration (sendNext s) \<noteq> packetDuration s"
  show "queue s = [] \<or>
        (\<exists>item others payload. queue s = item # others \<and> media_field item = Some payload \<and>
           packetDuration (sendNext s) = duration_of payload \<and>
           duration_of payload = duration_ms (length (base64_decode payload)))"
  proof (cases "queue s")
    case Nil
    then show ?thesis by simp
  next
    case (Cons item others)
    show ?thesis
    proof (cases "media_field item")
      case None
      with Cons changed show ?thesis by (simp add: sendNext_no_media)
    next
      case (Some payload)
      with Cons changed have "payload \<noteq> []"
        using sendNext_empty_payload [of s item others] by auto
      with Cons Some have "packetDuration (sendNext s) = duration_of payload"
        by (simp add: sendNext_media)
      with Cons Some show ?thesis by (simp add: duration_of_length)
    qed
  qed
qed (simp_all add: enqueue_fields clear_fields processNext_fields setVolume_fields
      setBufferLimit_fields onMessage_packetDuration)

theorem packetDuration_changes_only_for_media_witness:
  "packetDuration (sendNext ((constructor ''MZ'')
      \<lparr>queue := [\<lparr>event = MarkEvent, media_field = None, mark_field = Some ''m1''\<rparr>],
       packetDuration := Fin 20\<rparr>)) = Fin 20
   \<and> packetDuration (sendNext ((constructor ''MZ'')\<lparr>packetDuration := Fin 20\<rparr>)) = Fin 0
   \<and> (\<exists>payload. packetDuration (sendNext ((constructor ''MZ'')
          \<lparr>queue := [\<lparr>event = MediaEvent,
                      media_field = Some (concat (replicate 5333 ''AAAA'') @ ''AA==''),
                      mark_field = None\<rparr>]\<rparr>)) = duration_of payload
        \<and> duration_of payload = Fin 500)"
proof -
  let ?m = "\<lparr>event = MarkEvent, media_field = None, mark_field = Some ''m1''\<rparr>"
  let ?s = "(constructor ''MZ'')\<lparr>queue := [?m], packetDuration := Fin 20\<rparr>"
  let ?t = "(constructor ''MZ'')\<lparr>packetDuration := Fin 20\<rparr>"
  let ?p = "concat (replicate 5333 ''AAAA'') @ ''AA==''"
  let ?a = "\<lparr>event = MediaEvent, media_field = Some ?p, mark_field = None\<rparr>"
  let ?u = "(constructor ''MZ'')\<lparr>queue := [?a]\<rparr>"
  have a: "queue ?s = ?m # [] \<and> media_field ?m = None" by simp
  have b: "queue ?t = []" by (simp add: constructor_def)
  from packetDuration_changes_only_for_media [of ?s ?m "[]"] a
  have first: "packetDuration (sendNext ?s) = packetDuration ?s" by blast
  from packetDuration_changes_only_for_media [of ?t] b
  have second: "packetDuration (sendNext ?t) = Fin 0" by blast
  have ne: "?p \<noteq> []" by (simp only: append_is_Nil_conv) simp
  have len: "length (base64_decode ?p) = 16000"
    by (simp only: length_base64_decode_zeros)
  have q: "queue ?u = [?a]" by simp
  have "packetDuration (sendNext ?u) = duration_of ?p"
    by (rule sendNext_media [of ?u ?a "[]" ?p]) (simp_all only: q ne simp_thms, simp)
  then have new: "packetDuration (sendNext ?u) = Fin 500"
    by (simp only: duration_of_length len duration_ms_16000)
  have "packetDuration ?u = Fin 0" by (simp add: constructor_def)
  with new have changed: "packetDuration (sendNext ?u) \<noteq> packetDuration ?u" by simp
  from packetDuration_changes_only_for_media [of ?u] changed
  have "queue ?u = [] \<or>
        (\<exists>item others payload. queue ?u = item # others \<and> media_field item = Some payload \<and>
           packetDuration (sendNext ?u) = duration_of payload \<and>
           duration_of payload = duration_ms (length (base64_decode payload)))"
    by blast
  moreover have "queue ?u \<noteq> []" by simp
  ultimately obtain payload where sent: "packetDuration (sendNext ?u) = duration_of payload"
    by blast
  with new have "duration_of payload = Fin 500" by (simp only:)
  with sent have third: "\<exists>payload. packetDuration (sendNext ?u) = duration_of payload
      \<and> duration_of payload = Fin 500" by blast
  from first second third show ?thesis by simp
qed

text \<open>
  Claim C10. \<open>setVolume\<close>, whatever its argument, leaves the queue as it is; \<open>sendNext\<close>
  gives the socket the first message of the queue with the payload it was stored with, and
  does so identically after a change of the volume: nothing on the way out applies the gain.
\<close>

theorem queued_payload_sent_as_admitted:
  "queue (snd (setVolume volume s)) = queue s
   \<and> (queue s = m # rest \<longrightarrow>
        sent (sendNext s) = sent s @
          [\<lparr>wire_event = event m, wire_streamSid = streamSid s,
            wire_media = media_field m, wire_mark = mark_field m\<rparr>]
        \<and> sent (sendNext (snd (setVolume volume s))) = sent (sendNext s)
        \<and> queue (sendNext (snd (setVolume volume s))) = rest)"
proof (intro conjI impI)
  show "queue (snd (setVolume volume s)) = queue s" by (rule setVolume_fields)
  assume q: "queue s = m # rest"
  then show "sent (sendNext s) = sent s @
          [\<lparr>wire_event = event m, wire_streamSid = streamSid s,
            wire_media = media_field m, wire_mark = mark_field m\<rparr>]"
    by (rule sendNext_sent)
  from q have q': "queue (snd (setVolume volume s)) = m # rest" by (simp add: setVolume_fields)
  show "sent (sendNext (snd (setVolume volume s))) = sent (sendNext s)"
    by (simp add: sendNext_sent [OF q] sendNext_sent [OF q'] setVolume_fields)
  show "queue (sendNext (snd (setVolume volume s))) = rest"
    using q' by (rule sendNext_queue)
qed

theorem queued_payload_sent_as_admitted_witness:
  "sent (sendNext (snd (setVolume (JNum (Fin (1 / 2)))
      ((constructor ''MZ'')
         \<lparr>queue := [\<lparr>event = MediaEvent, media_field = Some ''IE4='', mark_field = None\<rparr>]\<rparr>))))
   = [\<lparr>wire_event = MediaEvent, wire_streamSid = ''MZ'', wire_media = Some ''IE4='',
       wire_mark = None\<rparr>]"
proof -
  let ?m = "\<lparr>event = MediaEvent, media_field = Some ''IE4='', mark_field = None\<rparr>"
  let ?s = "(constructor ''MZ'')\<lparr>queue := [?m]\<rparr>"
  have q: "queue ?s = ?m # []" by simp
  from queued_payload_sent_as_admitted [of "JNum (Fin (1 / 2))" ?s ?m "[]"] q
  have "sent (sendNext (snd (setVolume (JNum (Fin (1 / 2))) ?s))) = sent (sendNext ?s)"
    and "sent (sendNext ?s) = sent ?s @
          [\<lparr>wire_event = event ?m, wire_streamSid = streamSid ?s,
            wire_media = media_field ?m, wire_mark = mark_field ?m\<rparr>]"
    by blast+
  then show ?thesis by (simp add: constructor_def)
qed

section \<open>Inbound messages: the mark echo\<close>

text \<open>
  Claim C9. For an inbound message \<open>{"event":"mark","mark":{"name":N}}\<close> (and for every
  object with these entries) the handler calls \<open>emit('mark', N)\<close> exactly once and does
  nothing else; for a message whose \<open>event\<close> is anything but the text \<open>mark\<close> the handler
  leaves the state as it is: nothing is emitted and nothing is written to the console.
\<close>

theorem onMessage_mark_echo:
  "onMessage (Inr (JObj [(''event'', JStr ''mark''), (''mark'', JObj [(''name'', name)])])) s
     = s\<lparr>emitted := emitted s @ [name]\<rparr>
   \<and> (map_of props ''event'' = Some (JStr ''mark'') \<and> map_of props ''mark'' = Some (JObj inner)
        \<and> map_of inner ''name'' = Some name
        \<longrightarrow> onMessage (Inr (JObj props)) s = s\<lparr>emitted := emitted s @ [name]\<rparr>)
   \<and> (get_prop data ''event'' = Inr ev \<and> ev \<noteq> JStr ''mark'' \<longrightarrow> onMessage (Inr data) s = s)"
  by (simp add: onMessage_def)

theorem onMessage_mark_echo_witness:
  "onMessage (Inr (JObj [(''event'', JStr ''media'')])) (constructor ''MZ'') = constructor ''MZ''
   \<and> emitted (onMessage
        (Inr (JObj [(''streamSid'', JStr ''MZ''), (''mark'', JObj [(''name'', JStr ''chunk1'')]),
                    (''event'', JStr ''mark'')]))
        (constructor ''MZ'')) = [JStr ''chunk1'']"
proof -
  let ?other = "JObj [(''event'', JStr ''media'')]"
  let ?props = "[(''streamSid'', JStr ''MZ''), (''mark'', JObj [(''name'', JStr ''chunk1'')]),
                 (''event'', JStr ''mark'')]"
  let ?s = "constructor ''MZ''"
  have a: "get_prop ?other ''event'' = Inr (JStr ''media'') \<and> JStr ''media'' \<noteq> JStr ''mark''"
    by simp
  have b: "map_of ?props ''event'' = Some (JStr ''mark'')
           \<and> map_of ?props ''mark'' = Some (JObj [(''name'', JStr ''chunk1'')])
           \<and> map_of [(''name'', JStr ''chunk1'')] ''name'' = Some (JStr ''chunk1'')"
    by simp
  from onMessage_mark_echo [of "JStr ''chunk1''" ?s ?props "[(''name'', JStr ''chunk1'')]"
      ?other "JStr ''media''"] a b
  have "onMessage (Inr ?other) ?s = ?s"
    and "onMessage (Inr (JObj ?props)) ?s = ?s\<lparr>emitted := emitted ?s @ [JStr ''chunk1'']\<rparr>"
    by blast+
  then show ?thesis by (simp add: constructor_def)
qed

end
